theory Spec2Isabelle
  imports Main "HOL-Library.Finite_Map"
begin

section \<open>Go values used by the token stores\<close>

text \<open>
  The package \<^verbatim>\<open>auth\<close> (file \<^verbatim>\<open>auth/tokenstore.go\<close>) declares the interface
  \<^verbatim>\<open>TokenStore\<close> with the methods \<^verbatim>\<open>Store\<close>, \<^verbatim>\<open>Lookup\<close>, \<^verbatim>\<open>Revoke\<close> and \<^verbatim>\<open>List\<close>, and two
  implementations: \<^verbatim>\<open>inMemoryTokenStore\<close> and \<^verbatim>\<open>vaultTokenStore\<close>.

  A Go \<^verbatim>\<open>error\<close> is modelled as \<open>error option\<close>: \<open>None\<close> is the \<^verbatim>\<open>nil\<close> error. A method
  that can stop with a run-time panic returns an \<open>outcome\<close>: either the values it returns
  or the panic. A Go map is a finite map (\<open>fmap\<close>); reading a missing key of a
  \<^verbatim>\<open>map[string]string\<close> gives the zero value, the empty string. A slice result is a
  \<open>string list option\<close>, with \<open>None\<close> for the \<^verbatim>\<open>nil\<close> slice.
\<close>

datatype error = Error string

datatype panic = NilPointerDereference | InterfaceConversion | IndexOutOfRange

datatype 'a outcome = Return 'a | Panic panic

section \<open>The in-memory token store\<close>

text \<open>
  \<^verbatim>\<open>type inMemoryTokenStore struct { sync.RWMutex; store map[string]map[string]string }\<close>

  Every method holds the lock for its whole body, so the methods are modelled as atomic
  steps on the map; the lock itself is not part of the model. The only constructor is
  \<^verbatim>\<open>NewInMemoryTokenStore\<close>, which makes the outer map, and \<^verbatim>\<open>Store\<close> is the only place that
  makes an inner map and puts it under exactly one user, so neither map is ever \<^verbatim>\<open>nil\<close>
  and no inner map is shared between two users: the nested finite map is the state.
\<close>

record inMemoryTokenStore =
  store :: "(string, (string, string) fmap) fmap"

definition NewInMemoryTokenStore :: inMemoryTokenStore where
  "NewInMemoryTokenStore = \<lparr>store = fmempty\<rparr>"

definition inMemoryTokenStore_Store ::
  "inMemoryTokenStore \<Rightarrow> string \<Rightarrow> string \<Rightarrow> error option \<times> inMemoryTokenStore" where
  "inMemoryTokenStore_Store tokenStore userId token =
     (let userTokens = (case fmlookup (store tokenStore) userId of
                          Some m \<Rightarrow> m
                        | None \<Rightarrow> fmempty);
          userTokens = fmupd token token userTokens
      in (None, tokenStore\<lparr>store := fmupd userId userTokens (store tokenStore)\<rparr>))"

definition inMemoryTokenStore_Lookup ::
  "inMemoryTokenStore \<Rightarrow> string \<Rightarrow> string \<Rightarrow> string \<times> error option" where
  "inMemoryTokenStore_Lookup tokenStore userId token =
     (case fmlookup (store tokenStore) userId of
        Some userTokens \<Rightarrow>
          ((case fmlookup userTokens token of Some v \<Rightarrow> v | None \<Rightarrow> []), None)
      | None \<Rightarrow> ([], None))"

text \<open>
  \<^verbatim>\<open>delete(userTokens, token)\<close> changes the inner map in place, and the outer map refers to
  that same inner map: in the model the changed inner map is put back under \<open>userId\<close>. A
  user whose last token is revoked keeps an empty map.
\<close>

definition inMemoryTokenStore_Revoke ::
  "inMemoryTokenStore \<Rightarrow> string \<Rightarrow> string \<Rightarrow> error option \<times> inMemoryTokenStore" where
  "inMemoryTokenStore_Revoke tokenStore userId token =
     (case fmlookup (store tokenStore) userId of
        Some userTokens \<Rightarrow>
          (None, tokenStore\<lparr>store := fmupd userId (fmdrop token userTokens) (store tokenStore)\<rparr>)
      | None \<Rightarrow> (None, tokenStore))"

text \<open>
  \<^verbatim>\<open>List\<close> copies the keys of the user's map into a slice of length \<^verbatim>\<open>len(userTokens)\<close>:
  \<^verbatim>\<open>i := 0; for k := range userTokens { tokens[i] = k; i++ }\<close>.
  Go does not fix the order in which \<^verbatim>\<open>range\<close> visits the keys of a map, only that every
  key is visited once. The order taken by the run-time is therefore an argument \<open>ks\<close> of
  the model, and \<open>range_order userTokens ks\<close> says that \<open>ks\<close> is such an order. The loop
  writes by index; a write past the end of the slice is the panic of the Go run-time.
\<close>

definition range_order :: "(string, string) fmap \<Rightarrow> string list \<Rightarrow> bool" where
  "range_order userTokens ks = (distinct ks \<and> set ks = fmdom' userTokens)"

fun List_loop :: "string list \<Rightarrow> nat \<Rightarrow> string list \<Rightarrow> string list outcome" where
  "List_loop [] i tokens = Return tokens"
| "List_loop (k # ks) i tokens =
     (if i < length tokens then List_loop ks (i + 1) (tokens[i := k])
      else Panic IndexOutOfRange)"

definition inMemoryTokenStore_List ::
  "string list \<Rightarrow> inMemoryTokenStore \<Rightarrow> string \<Rightarrow> (string list option \<times> error option) outcome" where
  "inMemoryTokenStore_List ks tokenStore userId =
     (case fmlookup (store tokenStore) userId of
        Some userTokens \<Rightarrow>
          (case List_loop ks 0 (replicate (card (fmdom' userTokens)) []) of
             Return tokens \<Rightarrow> Return (Some tokens, None)
           | Panic p \<Rightarrow> Panic p)
      | None \<Rightarrow> Return (None, None))"

text \<open>
  \<open>valid_order ts u ks\<close>: \<open>ks\<close> is an order in which \<^verbatim>\<open>range\<close> can visit the map of user
  \<open>u\<close>; for a user without a map the loop does not run and any \<open>ks\<close> will do.
\<close>

definition valid_order :: "inMemoryTokenStore \<Rightarrow> string \<Rightarrow> string list \<Rightarrow> bool" where
  "valid_order ts u ks =
     (case fmlookup (store ts) u of Some userTokens \<Rightarrow> range_order userTokens ks | None \<Rightarrow> True)"

text \<open>
  Sequences of calls on one store. \<^verbatim>\<open>Lookup\<close> and \<^verbatim>\<open>List\<close> only read the map, so they
  leave the state as it is.
\<close>

datatype call =
    CallStore string string
  | CallLookup string string
  | CallRevoke string string
  | CallList string

fun step :: "inMemoryTokenStore \<Rightarrow> call \<Rightarrow> inMemoryTokenStore" where
  "step ts (CallStore u t) = snd (inMemoryTokenStore_Store ts u t)"
| "step ts (CallLookup u t) = ts"
| "step ts (CallRevoke u t) = snd (inMemoryTokenStore_Revoke ts u t)"
| "step ts (CallList u) = ts"

definition run :: "inMemoryTokenStore \<Rightarrow> call list \<Rightarrow> inMemoryTokenStore" where
  "run ts cs = foldl step ts cs"

inductive reachable :: "inMemoryTokenStore \<Rightarrow> bool" where
  reachable_new: "reachable NewInMemoryTokenStore"
| reachable_step: "reachable ts \<Longrightarrow> reachable (step ts c)"

text \<open>A token is stored under a user when it is a key of that user's map.\<close>

definition stored :: "inMemoryTokenStore \<Rightarrow> string \<Rightarrow> string \<Rightarrow> bool" where
  "stored ts u t =
     (case fmlookup (store ts) u of Some userTokens \<Rightarrow> t \<in> fmdom' userTokens | None \<Rightarrow> False)"

text \<open>
  The store after \<^verbatim>\<open>Store("alice","tok-1")\<close> and \<^verbatim>\<open>Store("alice","tok-2")\<close> on a new one.
\<close>

definition example_store :: inMemoryTokenStore where
  "example_store =
     run NewInMemoryTokenStore [CallStore ''alice'' ''tok-1'', CallStore ''alice'' ''tok-2'']"

text \<open>The value kept under a user and a token, if there is one.\<close>

definition value_at :: "inMemoryTokenStore \<Rightarrow> string \<Rightarrow> string \<Rightarrow> string option" where
  "value_at ts u t =
     (case fmlookup (store ts) u of Some userTokens \<Rightarrow> fmlookup userTokens t | None \<Rightarrow> None)"

section \<open>The Vault token store\<close>

text \<open>
  \<^verbatim>\<open>fmt.Sprintf\<close> on string operands, as far as this package uses it: literal text, the
  verbs \<^verbatim>\<open>%s\<close> and \<^verbatim>\<open>%v\<close> (the operand as it is) and \<^verbatim>\<open>%%\<close>, and what \<^verbatim>\<open>fmt\<close> prints
  for a missing operand, for operands left over, for a lone \<^verbatim>\<open>%\<close> at the end and for a verb
  it has no meaning for. Flags, widths and the verbs \<^verbatim>\<open>%q\<close>, \<^verbatim>\<open>%x\<close>, \<^verbatim>\<open>%X\<close> are outside this
  model; the two format strings of the package have \<^verbatim>\<open>%s\<close> only.
\<close>

fun extra_operands :: "string list \<Rightarrow> string" where
  "extra_operands [] = []"
| "extra_operands [a] = ''string='' @ a"
| "extra_operands (a # b # bs) = ''string='' @ a @ '', '' @ extra_operands (b # bs)"

definition extra :: "string list \<Rightarrow> string" where
  "extra args = (if args = [] then [] else ''%!(EXTRA '' @ extra_operands args @ '')'')"

fun Sprintf :: "string \<Rightarrow> string list \<Rightarrow> string" where
  "Sprintf [] args = extra args"
| "Sprintf (c # cs) args =
     (if c = CHR ''%'' then
        (case cs of
           [] \<Rightarrow> ''%!(NOVERB)'' @ extra args
         | v # rest \<Rightarrow>
             if v = CHR ''%'' then CHR ''%'' # Sprintf rest args
             else (case args of
                     [] \<Rightarrow> ''%!'' @ [v] @ ''(MISSING)'' @ Sprintf rest []
                   | a # as \<Rightarrow>
                       (if v = CHR ''s'' \<or> v = CHR ''v'' then a
                        else ''%!'' @ [v] @ ''(string='' @ a @ '')'') @ Sprintf rest as))
      else c # Sprintf cs args)"

text \<open>
  The Vault client (\<^verbatim>\<open>vaultapi.Logical\<close>) is a library outside this repository, so it is
  a parameter of the model: a record of its four calls, each taking the path and the state
  \<open>'b\<close> of the secret service and giving back the pair \<^verbatim>\<open>(*Secret, error)\<close> and the new
  state. A \<^verbatim>\<open>*Secret\<close> is \<open>None\<close> for the \<^verbatim>\<open>nil\<close> pointer. Of the fields of a secret the
  package reads \<^verbatim>\<open>Data\<close> only, a \<^verbatim>\<open>map[string]interface{}\<close>; \<open>iface\<close> is a value of
  \<^verbatim>\<open>interface{}\<close>: a string, a \<^verbatim>\<open>[]interface{}\<close>, \<^verbatim>\<open>nil\<close>, or a value of another type.
\<close>

datatype iface = IString string | ISlice "iface list" | INil | IOther

record Secret =
  Data :: "(string, iface) fmap"

type_synonym response = "Secret option \<times> error option"

record 'b Logical =
  Logical_Write :: "string \<Rightarrow> (string, iface) fmap \<Rightarrow> 'b \<Rightarrow> response \<times> 'b"
  Logical_Read :: "string \<Rightarrow> 'b \<Rightarrow> response \<times> 'b"
  Logical_Delete :: "string \<Rightarrow> 'b \<Rightarrow> response \<times> 'b"
  Logical_List :: "string \<Rightarrow> 'b \<Rightarrow> response \<times> 'b"

text \<open>
  \<^verbatim>\<open>type vaultTokenStore struct { client *vault.Client; logical *vaultapi.Logical }\<close>;
  the methods use \<^verbatim>\<open>logical\<close> only.
\<close>

record 'b vaultTokenStore =
  logical :: "'b Logical"

text \<open>
  \<^verbatim>\<open>m[key]\<close> on a \<^verbatim>\<open>map[string]interface{}\<close> gives \<^verbatim>\<open>nil\<close> for a missing key; the type
  assertions \<^verbatim>\<open>x.(string)\<close> and \<^verbatim>\<open>x.([]interface{})\<close> are written without the second
  result, so they panic when the value has another type.
\<close>

definition index :: "(string, iface) fmap \<Rightarrow> string \<Rightarrow> iface" where
  "index m k = (case fmlookup m k of Some v \<Rightarrow> v | None \<Rightarrow> INil)"

fun assert_string :: "iface \<Rightarrow> string outcome" where
  "assert_string (IString s) = Return s"
| "assert_string x = Panic InterfaceConversion"

fun assert_slice :: "iface \<Rightarrow> iface list outcome" where
  "assert_slice (ISlice xs) = Return xs"
| "assert_slice x = Panic InterfaceConversion"

definition tokenPath :: "string \<Rightarrow> string \<Rightarrow> string" where
  "tokenPath userId token = Sprintf ''secret/accesstokens/%s/%s'' [userId, token]"

definition vaultTokenStore_Store ::
  "'b vaultTokenStore \<Rightarrow> string \<Rightarrow> string \<Rightarrow> 'b \<Rightarrow> error option \<times> 'b" where
  "vaultTokenStore_Store tokenStore userId token b =
     (let data = fmupd ''token'' (IString token) fmempty;
          ((secret, err), b') = Logical_Write (logical tokenStore) (tokenPath userId token) data b
      in (err, b'))"

definition vaultTokenStore_Lookup ::
  "'b vaultTokenStore \<Rightarrow> string \<Rightarrow> string \<Rightarrow> 'b \<Rightarrow> (string \<times> error option) outcome \<times> 'b" where
  "vaultTokenStore_Lookup tokenStore userId token b =
     (let ((secret, err), b') = Logical_Read (logical tokenStore) (tokenPath userId token) b
      in case err of
           Some e \<Rightarrow> (Return ([], Some e), b')
         | None \<Rightarrow>
             (case secret of
                None \<Rightarrow> (Panic NilPointerDereference, b')
              | Some s \<Rightarrow>
                  (case assert_string (index (Data s) ''token'') of
                     Return v \<Rightarrow> (Return (v, None), b')
                   | Panic p \<Rightarrow> (Panic p, b'))))"

definition vaultTokenStore_Revoke ::
  "'b vaultTokenStore \<Rightarrow> string \<Rightarrow> string \<Rightarrow> 'b \<Rightarrow> error option \<times> 'b" where
  "vaultTokenStore_Revoke tokenStore userId token b =
     (let ((secret, err), b') = Logical_Delete (logical tokenStore) (tokenPath userId token) b
      in (err, b'))"

text \<open>
  The loop of \<^verbatim>\<open>List\<close>: \<^verbatim>\<open>for i, key := range keys { tokens[i] = key.(string) }\<close>.
\<close>

fun keys_loop :: "iface list \<Rightarrow> nat \<Rightarrow> string list \<Rightarrow> string list outcome" where
  "keys_loop [] i tokens = Return tokens"
| "keys_loop (key # keys) i tokens =
     (case assert_string key of
        Panic p \<Rightarrow> Panic p
      | Return s \<Rightarrow>
          if i < length tokens then keys_loop keys (i + 1) (tokens[i := s])
          else Panic IndexOutOfRange)"

definition vaultTokenStore_List ::
  "'b vaultTokenStore \<Rightarrow> string \<Rightarrow> 'b \<Rightarrow> (string list option \<times> error option) outcome \<times> 'b" where
  "vaultTokenStore_List tokenStore userId b =
     (let ((secret, err), b') =
            Logical_List (logical tokenStore) (Sprintf ''secret/accesstokens/%s'' [userId]) b
      in case err of
           Some e \<Rightarrow> (Return (None, Some e), b')
         | None \<Rightarrow>
             (case secret of
                None \<Rightarrow> (Panic NilPointerDereference, b')
              | Some s \<Rightarrow>
                  (case assert_slice (index (Data s) ''keys'') of
                     Panic p \<Rightarrow> (Panic p, b')
                   | Return keys \<Rightarrow>
                       (case keys_loop keys 0 (replicate (length keys) []) of
                          Return tokens \<Rightarrow> (Return (Some tokens, None), b')
                        | Panic p \<Rightarrow> (Panic p, b')))))"

text \<open>
  A client that keeps the requests it is sent, in order, and answers every one of them
  with the same response \<open>resp\<close>. The state of this service is the list of requests.
\<close>

datatype request =
    ReqWrite string "(string, iface) fmap"
  | ReqRead string
  | ReqDelete string
  | ReqList string

definition recorder :: "response \<Rightarrow> (request list) Logical" where
  "recorder resp =
     \<lparr>Logical_Write = (\<lambda>path data log. (resp, log @ [ReqWrite path data])),
      Logical_Read = (\<lambda>path log. (resp, log @ [ReqRead path])),
      Logical_Delete = (\<lambda>path log. (resp, log @ [ReqDelete path])),
      Logical_List = (\<lambda>path log. (resp, log @ [ReqList path]))\<rparr>"

section \<open>Facts about the model\<close>

lemma List_loop_fill:
  "i + length ks \<le> length tokens \<Longrightarrow>
   List_loop ks i tokens = Return (take i tokens @ ks @ drop (i + length ks) tokens)"
proof (induction ks arbitrary: i tokens)
  case Nil
  then show ?case by simp
next
  case (Cons k ks)
  from Cons.prems have lt: "i < length tokens" by simp
  from Cons.prems have "Suc i + length ks \<le> length (tokens[i := k])" by simp
  from Cons.IH [OF this] lt show ?case
    by (simp add: take_Suc_conv_app_nth)
qed

lemma range_order_length: "range_order m ks \<Longrightarrow> length ks = card (fmdom' m)"
  unfolding range_order_def using distinct_card by fastforce

lemma List_loop_range:
  "range_order m ks \<Longrightarrow> List_loop ks 0 (replicate (card (fmdom' m)) []) = Return ks"
  using List_loop_fill [of 0 ks "replicate (card (fmdom' m)) []"]
  by (simp add: range_order_length)

lemma List_valid:
  "valid_order ts u ks \<Longrightarrow>
   inMemoryTokenStore_List ks ts u =
     Return (case fmlookup (store ts) u of Some m \<Rightarrow> Some ks | None \<Rightarrow> None, None)"
  by (auto simp: valid_order_def inMemoryTokenStore_List_def List_loop_range split: option.splits)

lemma range_order_ex: "\<exists>ks. range_order m ks"
  unfolding range_order_def using finite_distinct_list [OF finite_fmdom', of m] by blast

lemma valid_order_ex: "\<exists>ks. valid_order ts u ks"
proof (cases "fmlookup (store ts) u")
  case None
  then show ?thesis by (simp add: valid_order_def)
next
  case (Some m)
  then show ?thesis using range_order_ex [of m] by (simp add: valid_order_def)
qed

lemma tokenPath_eq: "tokenPath u t = ''secret/accesstokens/'' @ u @ ''/'' @ t"
  by (simp add: tokenPath_def extra_def)

lemma listPath_eq: "Sprintf ''secret/accesstokens/%s'' [u] = ''secret/accesstokens/'' @ u"
  by (simp add: extra_def)

lemma distinct_count_list: "distinct xs \<Longrightarrow> x \<in> set xs \<Longrightarrow> count_list xs x = 1"
  by (induction xs) auto

lemmas inMemory_defs =
  inMemoryTokenStore_Store_def inMemoryTokenStore_Lookup_def inMemoryTokenStore_Revoke_def

lemmas example_defs =
  example_store_def run_def NewInMemoryTokenStore_def inMemory_defs Let_def

lemma stored_Store: "stored (snd (inMemoryTokenStore_Store ts u t)) u' t' =
  ((u' = u \<and> t' = t) \<or> stored ts u' t')"
  by (auto simp: stored_def inMemory_defs Let_def split: option.splits)

lemma stored_Revoke: "stored (snd (inMemoryTokenStore_Revoke ts u t)) u' t' =
  (\<not> (u' = u \<and> t' = t) \<and> stored ts u' t')"
  by (auto simp: stored_def inMemory_defs split: option.splits)

lemma step_keeps_absent:
  assumes "\<not> stored ts u t" and "c \<noteq> CallStore u t"
  shows "\<not> stored (step ts c) u t"
proof (cases c)
  case (CallStore u' t')
  with assms show ?thesis by (auto simp: stored_Store)
next
  case (CallRevoke u' t')
  with assms show ?thesis by (simp add: stored_Revoke)
next
  case (CallLookup u' t')
  with assms show ?thesis by simp
next
  case (CallList u')
  with assms show ?thesis by simp
qed

lemma run_keeps_absent:
  "\<not> stored ts u t \<Longrightarrow> CallStore u t \<notin> set cs \<Longrightarrow> \<not> stored (run ts cs) u t"
proof (induction cs arbitrary: ts)
  case Nil
  then show ?case by (simp add: run_def)
next
  case (Cons c cs)
  from Cons.prems(2) have c: "c \<noteq> CallStore u t" and cs: "CallStore u t \<notin> set cs"
    by auto
  from Cons.prems(1) c have "\<not> stored (step ts c) u t"
    by (rule step_keeps_absent)
  then have "\<not> stored (run (step ts c) cs) u t"
    using cs by (rule Cons.IH)
  then show ?case by (simp add: run_def)
qed

lemma Lookup_absent: "\<not> stored ts u t \<Longrightarrow> inMemoryTokenStore_Lookup ts u t = ([], None)"
  by (auto simp: stored_def inMemoryTokenStore_Lookup_def fmlookup_dom'_iff split: option.splits)

lemma List_absent:
  "\<not> stored ts u t \<Longrightarrow> valid_order ts u ks \<Longrightarrow>
   \<exists>tokens. inMemoryTokenStore_List ks ts u = Return (tokens, None) \<and>
     t \<notin> set (case tokens of Some xs \<Rightarrow> xs | None \<Rightarrow> [])"
  by (auto simp: List_valid stored_def valid_order_def range_order_def split: option.splits)


lemma reachable_canonical:
  "reachable ts \<Longrightarrow> fmlookup (store ts) u = Some m \<Longrightarrow> fmlookup m t = Some v \<Longrightarrow> v = t"
proof (induction arbitrary: u m t v rule: reachable.induct)
  case reachable_new
  then show ?case by (simp add: NewInMemoryTokenStore_def)
next
  case (reachable_step ts c)
  show ?case
  proof (cases c)
    case (CallStore u' t')
    with reachable_step.prems reachable_step.IH show ?thesis
      by (auto simp: inMemoryTokenStore_Store_def Let_def split: option.splits if_splits)
  next
    case (CallRevoke u' t')
    with reachable_step.prems reachable_step.IH show ?thesis
      by (auto simp: inMemoryTokenStore_Revoke_def split: option.splits if_splits)
  next
    case (CallLookup u' t')
    with reachable_step.prems reachable_step.IH show ?thesis by auto
  next
    case (CallList u')
    with reachable_step.prems reachable_step.IH show ?thesis by auto
  qed
qed

lemma inMemory_unknown_user:
  "fmlookup (store ts) u = None \<Longrightarrow>
   inMemoryTokenStore_Lookup ts u t = ([], None) \<and>
   inMemoryTokenStore_List ks ts u = Return (None, None)"
  by (simp add: inMemoryTokenStore_Lookup_def inMemoryTokenStore_List_def)

lemma vault_Lookup_nil_secret:
  "Logical_Read (logical vs) (tokenPath u t) b = ((None, None), b') \<Longrightarrow>
   vaultTokenStore_Lookup vs u t b = (Panic NilPointerDereference, b')"
  by (simp add: vaultTokenStore_Lookup_def)

lemma vault_List_nil_secret:
  "Logical_List (logical vs) (Sprintf ''secret/accesstokens/%s'' [u]) b = ((None, None), b') \<Longrightarrow>
   vaultTokenStore_List vs u b = (Panic NilPointerDereference, b')"
  by (simp add: vaultTokenStore_List_def)

lemma vault_Lookup_error:
  "Logical_Read (logical vs) (tokenPath u t) b = ((secret, Some e), b') \<Longrightarrow>
   vaultTokenStore_Lookup vs u t b = (Return ([], Some e), b')"
  by (simp add: vaultTokenStore_Lookup_def)

lemma vault_List_error:
  "Logical_List (logical vs) (Sprintf ''secret/accesstokens/%s'' [u]) b = ((secret, Some e), b') \<Longrightarrow>
   vaultTokenStore_List vs u b = (Return (None, Some e), b')"
  by (simp add: vaultTokenStore_List_def)

text \<open>
  A secret without the field that the method reads: each method on its own, for every
  client, whatever the client answers to other requests.
\<close>

lemma vault_Lookup_missing_token:
  "Logical_Read (logical vs) (tokenPath u t) b = ((Some s, None), b') \<Longrightarrow>
   fmlookup (Data s) ''token'' = None \<Longrightarrow>
   vaultTokenStore_Lookup vs u t b = (Panic InterfaceConversion, b')"
  by (simp add: vaultTokenStore_Lookup_def index_def)

lemma vault_List_missing_keys:
  "Logical_List (logical vs) (Sprintf ''secret/accesstokens/%s'' [u]) b = ((Some s, None), b') \<Longrightarrow>
   fmlookup (Data s) ''keys'' = None \<Longrightarrow>
   vaultTokenStore_List vs u b = (Panic InterfaceConversion, b')"
  by (simp add: vaultTokenStore_List_def index_def)

text \<open>
  The Vault methods return an error only when the client's call reported that error.
\<close>

lemma vault_Lookup_error_only_from_client:
  "fst (vaultTokenStore_Lookup vs u t b) = Return (v, Some e) \<Longrightarrow>
   snd (fst (Logical_Read (logical vs) (tokenPath u t) b)) = Some e"
  by (auto simp: vaultTokenStore_Lookup_def split: prod.splits option.splits outcome.splits)

lemma vault_List_error_only_from_client:
  "fst (vaultTokenStore_List vs u b) = Return (xs, Some e) \<Longrightarrow>
   snd (fst (Logical_List (logical vs) (Sprintf ''secret/accesstokens/%s'' [u]) b)) = Some e"
  by (auto simp: vaultTokenStore_List_def split: prod.splits option.splits outcome.splits)

lemma vault_Store_state:
  "snd (vaultTokenStore_Store vs u t b) =
   snd (Logical_Write (logical vs) (tokenPath u t) (fmupd ''token'' (IString t) fmempty) b)"
  by (simp add: vaultTokenStore_Store_def split: prod.splits)

lemma vault_Lookup_state:
  "snd (vaultTokenStore_Lookup vs u t b) = snd (Logical_Read (logical vs) (tokenPath u t) b)"
  by (simp add: vaultTokenStore_Lookup_def split: prod.splits option.splits outcome.splits)

lemma vault_Revoke_state:
  "snd (vaultTokenStore_Revoke vs u t b) = snd (Logical_Delete (logical vs) (tokenPath u t) b)"
  by (simp add: vaultTokenStore_Revoke_def split: prod.splits)

lemma vault_List_state:
  "snd (vaultTokenStore_List vs u b) =
   snd (Logical_List (logical vs) (Sprintf ''secret/accesstokens/%s'' [u]) b)"
  by (simp add: vaultTokenStore_List_def split: prod.splits option.splits outcome.splits)

section \<open>The claims\<close>

text \<open>
  Claim C1 does not hold of the Vault store. The Vault client reports a path that does not exist as a
  \<^verbatim>\<open>nil\<close> secret with a \<^verbatim>\<open>nil\<close> error. On that answer \<^verbatim>\<open>Lookup\<close> and \<^verbatim>\<open>List\<close> of the Vault
  store read \<^verbatim>\<open>secret.Data\<close> through the \<^verbatim>\<open>nil\<close> pointer and panic; they do not return the
  empty result with no error that the in-memory store returns for a user it does not
  know.
\<close>

theorem vault_absent_panics:
  "fst (vaultTokenStore_Lookup \<lparr>logical = recorder (None, None)\<rparr> ''bob'' ''x'' []) =
     Panic NilPointerDereference \<and>
   fst (vaultTokenStore_List \<lparr>logical = recorder (None, None)\<rparr> ''bob'' []) =
     Panic NilPointerDereference \<and>
   inMemoryTokenStore_Lookup NewInMemoryTokenStore ''bob'' ''x'' = ([], None) \<and>
   inMemoryTokenStore_List [] NewInMemoryTokenStore ''bob'' = Return (None, None)"
  by (simp add: recorder_def vaultTokenStore_Lookup_def vaultTokenStore_List_def
      inMemoryTokenStore_Lookup_def inMemoryTokenStore_List_def NewInMemoryTokenStore_def)

text \<open>
  Claim C2 does not hold of the Vault store. When the client answers, without an error,
  with a secret whose \<^verbatim>\<open>Data\<close> has no \<^verbatim>\<open>token\<close> field, \<^verbatim>\<open>Lookup\<close> panics at the type
  assertion \<^verbatim>\<open>.(string)\<close>, and when \<^verbatim>\<open>Data\<close> has no \<^verbatim>\<open>keys\<close> field, \<^verbatim>\<open>List\<close> panics at the
  type assertion \<^verbatim>\<open>.([]interface{})\<close>: neither returns an error to its caller. Here the
  client answers every request with a secret whose \<^verbatim>\<open>Data\<close> is empty.
\<close>

theorem vault_malformed_panics:
  "vaultTokenStore_Lookup \<lparr>logical = recorder (Some \<lparr>Data = fmempty\<rparr>, None)\<rparr> ''alice'' ''tok-1'' [] =
     (Panic InterfaceConversion, [ReqRead ''secret/accesstokens/alice/tok-1'']) \<and>
   vaultTokenStore_List \<lparr>logical = recorder (Some \<lparr>Data = fmempty\<rparr>, None)\<rparr> ''alice'' [] =
     (Panic InterfaceConversion, [ReqList ''secret/accesstokens/alice''])"
proof -
  have "vaultTokenStore_Lookup \<lparr>logical = recorder (Some \<lparr>Data = fmempty\<rparr>, None)\<rparr>
      ''alice'' ''tok-1'' [] =
      (Panic InterfaceConversion, [ReqRead ''secret/accesstokens/alice/tok-1''])"
    by (rule vault_Lookup_missing_token [where s = "\<lparr>Data = fmempty\<rparr>"])
       (simp_all add: recorder_def tokenPath_eq)
  moreover have "vaultTokenStore_List \<lparr>logical = recorder (Some \<lparr>Data = fmempty\<rparr>, None)\<rparr>
      ''alice'' [] = (Panic InterfaceConversion, [ReqList ''secret/accesstokens/alice''])"
    by (rule vault_List_missing_keys [where s = "\<lparr>Data = fmempty\<rparr>"])
       (simp_all add: recorder_def extra_def)
  ultimately show ?thesis by simp
qed

text \<open>
  Claim C3. In the in-memory store, from any state, \<^verbatim>\<open>Store(u,t)\<close> returns no error, and
  \<^verbatim>\<open>Lookup(u,t)\<close> on the state it leaves returns \<open>t\<close> with no error.
\<close>

theorem Store_then_Lookup:
  "fst (inMemoryTokenStore_Store ts u t) = None \<and>
   inMemoryTokenStore_Lookup (snd (inMemoryTokenStore_Store ts u t)) u t = (t, None)"
  by (simp add: inMemory_defs Let_def)

text \<open>
  Claim C4. In the in-memory store, from any state (whether or not \<open>t\<close> was stored under
  \<open>u\<close>), \<^verbatim>\<open>Revoke(u,t)\<close> returns no error, and after any sequence \<open>cs\<close> of later calls that
  has no \<^verbatim>\<open>Store(u,t)\<close> in it, \<^verbatim>\<open>Lookup(u,t)\<close> returns the empty string with no error and
  \<^verbatim>\<open>List(u)\<close>, in whatever order \<^verbatim>\<open>range\<close> visits the keys, returns without error a
  sequence that does not contain \<open>t\<close>. A later \<^verbatim>\<open>Store(u,t)\<close> puts the token back:
  \<^verbatim>\<open>Lookup(u,t)\<close> returns \<open>t\<close> again.
\<close>

theorem Revoke_then_absent:
  assumes "CallStore u t \<notin> set cs"
    and "valid_order (run (snd (inMemoryTokenStore_Revoke ts u t)) cs) u ks"
  shows "fst (inMemoryTokenStore_Revoke ts u t) = None \<and>
    inMemoryTokenStore_Lookup (run (snd (inMemoryTokenStore_Revoke ts u t)) cs) u t = ([], None) \<and>
    (\<exists>tokens. inMemoryTokenStore_List ks (run (snd (inMemoryTokenStore_Revoke ts u t)) cs) u
                 = Return (tokens, None) \<and>
               t \<notin> set (case tokens of Some xs \<Rightarrow> xs | None \<Rightarrow> [])) \<and>
    inMemoryTokenStore_Lookup
      (snd (inMemoryTokenStore_Store (run (snd (inMemoryTokenStore_Revoke ts u t)) cs) u t)) u t
      = (t, None)"
proof -
  let ?ts' = "run (snd (inMemoryTokenStore_Revoke ts u t)) cs"
  have "\<not> stored (snd (inMemoryTokenStore_Revoke ts u t)) u t"
    by (simp add: stored_Revoke)
  then have absent: "\<not> stored ?ts' u t"
    using assms(1) by (rule run_keeps_absent)
  have "fst (inMemoryTokenStore_Revoke ts u t) = None"
    by (simp add: inMemoryTokenStore_Revoke_def split: option.splits)
  moreover have "inMemoryTokenStore_Lookup ?ts' u t = ([], None)"
    using absent by (rule Lookup_absent)
  moreover have "\<exists>tokens. inMemoryTokenStore_List ks ?ts' u = Return (tokens, None) \<and>
      t \<notin> set (case tokens of Some xs \<Rightarrow> xs | None \<Rightarrow> [])"
    using absent assms(2) by (rule List_absent)
  moreover have "inMemoryTokenStore_Lookup (snd (inMemoryTokenStore_Store ?ts' u t)) u t = (t, None)"
    by (simp add: inMemory_defs Let_def)
  ultimately show ?thesis by blast
qed

text \<open>The theorem of claim C4 at a concrete input, with its hypotheses checked there.\<close>

theorem Revoke_then_absent_witness:
  "CallStore ''alice'' ''tok-1'' \<notin> set [CallStore ''alice'' ''tok-3'', CallLookup ''alice'' ''tok-1''] \<and>
   valid_order
     (run (snd (inMemoryTokenStore_Revoke example_store ''alice'' ''tok-1''))
        [CallStore ''alice'' ''tok-3'', CallLookup ''alice'' ''tok-1''])
     ''alice'' [''tok-3'', ''tok-2''] \<and>
   inMemoryTokenStore_Lookup
     (run (snd (inMemoryTokenStore_Revoke example_store ''alice'' ''tok-1''))
        [CallStore ''alice'' ''tok-3'', CallLookup ''alice'' ''tok-1''])
     ''alice'' ''tok-1'' = ([], None)"
proof -
  have h1: "CallStore ''alice'' ''tok-1'' \<notin>
      set [CallStore ''alice'' ''tok-3'', CallLookup ''alice'' ''tok-1'']"
    by simp
  have h2: "valid_order
     (run (snd (inMemoryTokenStore_Revoke example_store ''alice'' ''tok-1''))
        [CallStore ''alice'' ''tok-3'', CallLookup ''alice'' ''tok-1''])
     ''alice'' [''tok-3'', ''tok-2'']"
    by (auto simp: valid_order_def range_order_def example_defs)
  from Revoke_then_absent [OF h1 h2] h1 h2 show ?thesis by blast
qed

text \<open>
  Claim C5. \<^verbatim>\<open>Store\<close> of the in-memory store is idempotent: from any state, the second
  \<^verbatim>\<open>Store(u,t)\<close> returns what the first returned, no error and the same state, and in that
  state \<^verbatim>\<open>List(u)\<close> returns the keys in the order \<open>ks\<close> of \<^verbatim>\<open>range\<close>, a sequence in which
  \<open>t\<close> occurs exactly once.
\<close>

theorem Store_idempotent:
  assumes "valid_order (snd (inMemoryTokenStore_Store (snd (inMemoryTokenStore_Store ts u t)) u t)) u ks"
  shows "inMemoryTokenStore_Store (snd (inMemoryTokenStore_Store ts u t)) u t =
           inMemoryTokenStore_Store ts u t \<and>
         fst (inMemoryTokenStore_Store ts u t) = None \<and>
         inMemoryTokenStore_List ks
           (snd (inMemoryTokenStore_Store (snd (inMemoryTokenStore_Store ts u t)) u t)) u
           = Return (Some ks, None) \<and>
         count_list ks t = 1"
proof -
  let ?ts1 = "snd (inMemoryTokenStore_Store ts u t)"
  let ?ts2 = "snd (inMemoryTokenStore_Store ?ts1 u t)"
  have same: "inMemoryTokenStore_Store ?ts1 u t = inMemoryTokenStore_Store ts u t"
    by (simp add: inMemoryTokenStore_Store_def Let_def)
  have ok: "fst (inMemoryTokenStore_Store ts u t) = None"
    by (simp add: inMemoryTokenStore_Store_def Let_def)
  obtain m where m: "fmlookup (store ?ts2) u = Some m" and tm: "t \<in> fmdom' m"
    by (simp add: inMemoryTokenStore_Store_def Let_def)
  from assms m have ro: "range_order m ks" by (simp add: valid_order_def)
  have list: "inMemoryTokenStore_List ks ?ts2 u = Return (Some ks, None)"
    using List_valid [OF assms] m by simp
  from ro tm have "count_list ks t = 1"
    by (simp add: range_order_def distinct_count_list)
  with same ok list show ?thesis by simp
qed

text \<open>The theorem of claim C5 at a concrete input, with its hypotheses checked there.\<close>

theorem Store_idempotent_witness:
  "valid_order
     (snd (inMemoryTokenStore_Store
        (snd (inMemoryTokenStore_Store NewInMemoryTokenStore ''alice'' ''tok-1'')) ''alice'' ''tok-1''))
     ''alice'' [''tok-1''] \<and>
   inMemoryTokenStore_List [''tok-1'']
     (snd (inMemoryTokenStore_Store
        (snd (inMemoryTokenStore_Store NewInMemoryTokenStore ''alice'' ''tok-1'')) ''alice'' ''tok-1''))
     ''alice'' = Return (Some [''tok-1''], None) \<and>
   count_list [''tok-1''] ''tok-1'' = 1"
proof -
  have h: "valid_order
     (snd (inMemoryTokenStore_Store
        (snd (inMemoryTokenStore_Store NewInMemoryTokenStore ''alice'' ''tok-1'')) ''alice'' ''tok-1''))
     ''alice'' [''tok-1'']"
    by (simp add: valid_order_def range_order_def example_defs)
  from Store_idempotent [OF h] h show ?thesis by blast
qed




text \<open>
  Claim C7. Every method of the in-memory store returns the \<^verbatim>\<open>nil\<close> error, for every
  state and every argument: \<^verbatim>\<open>Store\<close>, \<^verbatim>\<open>Lookup\<close> and \<^verbatim>\<open>Revoke\<close> do, and \<^verbatim>\<open>List\<close> does for
  every order in which \<^verbatim>\<open>range\<close> can visit the keys (there is always one), without a
  panic of the indexed writes of its loop.
\<close>

theorem inMemory_no_error:
  "fst (inMemoryTokenStore_Store ts u t) = None \<and>
   snd (inMemoryTokenStore_Lookup ts u t) = None \<and>
   fst (inMemoryTokenStore_Revoke ts u t) = None \<and>
   (\<exists>ks. valid_order ts u ks) \<and>
   (\<forall>ks. valid_order ts u ks \<longrightarrow>
      (\<exists>tokens. inMemoryTokenStore_List ks ts u = Return (tokens, None)))"
  by (auto simp: inMemory_defs Let_def List_valid valid_order_ex split: option.splits)

text \<open>The theorem of claim C7 at a concrete input, with its hypotheses checked there.\<close>

theorem inMemory_no_error_witness:
  "valid_order example_store ''alice'' [''tok-2'', ''tok-1''] \<and>
   (\<exists>tokens. inMemoryTokenStore_List [''tok-2'', ''tok-1''] example_store ''alice'' =
      Return (tokens, None))"
proof -
  have h: "valid_order example_store ''alice'' [''tok-2'', ''tok-1'']"
    by (auto simp: valid_order_def range_order_def example_defs)
  from inMemory_no_error [of example_store "''alice''" "''tok-1''"] h show ?thesis by blast
qed

text \<open>
  Claim C8, as amended. Every method of the Vault store sends the secret service one
  request, and its path is \<^verbatim>\<open>secret/accesstokens/<userId>/<token>\<close> for \<^verbatim>\<open>Store\<close> (a write
  of the payload \<^verbatim>\<open>{"token": token}\<close>), \<^verbatim>\<open>Lookup\<close> (a read) and \<^verbatim>\<open>Revoke\<close> (a delete), and
  \<^verbatim>\<open>secret/accesstokens/<userId>\<close> for \<^verbatim>\<open>List\<close> (a list): the paths start with \<^verbatim>\<open>secret/\<close>.
  The requests are read off the client that records them, whatever it answers.
\<close>

theorem vault_paths:
  "tokenPath u t = ''secret/accesstokens/'' @ u @ ''/'' @ t \<and>
   snd (vaultTokenStore_Store \<lparr>logical = recorder resp\<rparr> u t log) =
     log @ [ReqWrite (''secret/accesstokens/'' @ u @ ''/'' @ t) (fmupd ''token'' (IString t) fmempty)] \<and>
   snd (vaultTokenStore_Lookup \<lparr>logical = recorder resp\<rparr> u t log) =
     log @ [ReqRead (''secret/accesstokens/'' @ u @ ''/'' @ t)] \<and>
   snd (vaultTokenStore_Revoke \<lparr>logical = recorder resp\<rparr> u t log) =
     log @ [ReqDelete (''secret/accesstokens/'' @ u @ ''/'' @ t)] \<and>
   snd (vaultTokenStore_List \<lparr>logical = recorder resp\<rparr> u log) =
     log @ [ReqList (''secret/accesstokens/'' @ u)]"
proof -
  have "snd (vaultTokenStore_Store \<lparr>logical = recorder resp\<rparr> u t log) =
     log @ [ReqWrite (''secret/accesstokens/'' @ u @ ''/'' @ t) (fmupd ''token'' (IString t) fmempty)]"
    unfolding vault_Store_state by (simp add: recorder_def tokenPath_eq)
  moreover have "snd (vaultTokenStore_Lookup \<lparr>logical = recorder resp\<rparr> u t log) =
     log @ [ReqRead (''secret/accesstokens/'' @ u @ ''/'' @ t)]"
    unfolding vault_Lookup_state by (simp add: recorder_def tokenPath_eq)
  moreover have "snd (vaultTokenStore_Revoke \<lparr>logical = recorder resp\<rparr> u t log) =
     log @ [ReqDelete (''secret/accesstokens/'' @ u @ ''/'' @ t)]"
    unfolding vault_Revoke_state by (simp add: recorder_def tokenPath_eq)
  moreover have "snd (vaultTokenStore_List \<lparr>logical = recorder resp\<rparr> u log) =
     log @ [ReqList (''secret/accesstokens/'' @ u)]"
    unfolding vault_List_state by (simp add: recorder_def extra_def)
  ultimately show ?thesis by (simp add: tokenPath_eq)
qed

text \<open>
  Claim C8, as stated, fails: the path of the token \<^verbatim>\<open>tok-1\<close> of the user \<^verbatim>\<open>alice\<close>
  is not \<^verbatim>\<open>accesstokens/alice/tok-1\<close>.
\<close>

theorem vault_paths_counterexample:
  "tokenPath ''alice'' ''tok-1'' \<noteq> ''accesstokens/alice/tok-1''"
  by (simp add: tokenPath_eq)

text \<open>
  Claim C9. In every state that the in-memory store reaches from
  \<^verbatim>\<open>NewInMemoryTokenStore\<close> by calls of its methods, \<^verbatim>\<open>Lookup(u,t)\<close> returns \<open>t\<close> itself when
  \<open>t\<close> is stored under \<open>u\<close> and the empty string when it is not, with no error; the value
  kept under \<open>(u,t)\<close>, when there is one, is \<open>t\<close>.
\<close>

theorem Lookup_canonical:
  assumes "reachable ts"
  shows "inMemoryTokenStore_Lookup ts u t = (if stored ts u t then t else [], None) \<and>
         value_at ts u t = (if stored ts u t then Some t else None)"
proof -
  have v: "value_at ts u t = (if stored ts u t then Some t else None)"
    using reachable_canonical [OF assms, of u _ t]
    by (auto simp: value_at_def stored_def fmlookup_dom'_iff split: option.splits)
  have "inMemoryTokenStore_Lookup ts u t = (case value_at ts u t of Some v \<Rightarrow> v | None \<Rightarrow> [], None)"
    by (simp add: inMemoryTokenStore_Lookup_def value_at_def split: option.splits)
  with v show ?thesis by simp
qed

text \<open>The theorem of claim C9 at a concrete input, with its hypotheses checked there.\<close>

theorem Lookup_canonical_witness:
  "reachable (step (step NewInMemoryTokenStore (CallStore ''alice'' ''tok-1''))
                (CallRevoke ''alice'' ''tok-2'')) \<and>
   inMemoryTokenStore_Lookup
     (step (step NewInMemoryTokenStore (CallStore ''alice'' ''tok-1''))
        (CallRevoke ''alice'' ''tok-2'')) ''alice'' ''tok-1'' = (''tok-1'', None)"
proof -
  have h: "reachable (step (step NewInMemoryTokenStore (CallStore ''alice'' ''tok-1''))
                (CallRevoke ''alice'' ''tok-2''))"
    by (intro reachable_step reachable_new)
  have s: "stored (step (step NewInMemoryTokenStore (CallStore ''alice'' ''tok-1''))
                (CallRevoke ''alice'' ''tok-2'')) ''alice'' ''tok-1''"
    by (simp add: stored_def example_defs)
  from Lookup_canonical [OF h, of "''alice''" "''tok-1''"] h s show ?thesis by simp
qed

text \<open>
  Claim C10. \<^verbatim>\<open>Store(u,t)\<close> and \<^verbatim>\<open>Revoke(u,t)\<close> of the in-memory store leave every other
  pair alone: for \<open>(u',t') \<noteq> (u,t)\<close> the result of \<^verbatim>\<open>Lookup(u',t')\<close> is the same before and
  after, and for \<open>u'' \<noteq> u\<close> the result of \<^verbatim>\<open>List(u'')\<close> is the same before and after, for
  every order of \<^verbatim>\<open>range\<close>, and the orders \<^verbatim>\<open>range\<close> can take are the same.
\<close>

theorem Store_Revoke_frame:
  assumes "(u', t') \<noteq> (u, t)" and "u'' \<noteq> u"
  shows "inMemoryTokenStore_Lookup (snd (inMemoryTokenStore_Store ts u t)) u' t' =
           inMemoryTokenStore_Lookup ts u' t' \<and>
         inMemoryTokenStore_Lookup (snd (inMemoryTokenStore_Revoke ts u t)) u' t' =
           inMemoryTokenStore_Lookup ts u' t' \<and>
         inMemoryTokenStore_List ks (snd (inMemoryTokenStore_Store ts u t)) u'' =
           inMemoryTokenStore_List ks ts u'' \<and>
         inMemoryTokenStore_List ks (snd (inMemoryTokenStore_Revoke ts u t)) u'' =
           inMemoryTokenStore_List ks ts u'' \<and>
         valid_order (snd (inMemoryTokenStore_Store ts u t)) u'' ks = valid_order ts u'' ks \<and>
         valid_order (snd (inMemoryTokenStore_Revoke ts u t)) u'' ks = valid_order ts u'' ks"
proof -
  have s: "fmlookup (store (snd (inMemoryTokenStore_Store ts u t))) u'' = fmlookup (store ts) u''"
    using assms(2) by (simp add: inMemoryTokenStore_Store_def Let_def)
  have r: "fmlookup (store (snd (inMemoryTokenStore_Revoke ts u t))) u'' = fmlookup (store ts) u''"
    using assms(2) by (simp add: inMemoryTokenStore_Revoke_def split: option.splits)
  have l1: "inMemoryTokenStore_Lookup (snd (inMemoryTokenStore_Store ts u t)) u' t' =
           inMemoryTokenStore_Lookup ts u' t'"
    using assms(1) by (auto simp: inMemory_defs Let_def split: option.splits)
  have l2: "inMemoryTokenStore_Lookup (snd (inMemoryTokenStore_Revoke ts u t)) u' t' =
           inMemoryTokenStore_Lookup ts u' t'"
    using assms(1) by (auto simp: inMemory_defs split: option.splits)
  from s r l1 l2 show ?thesis
    by (simp add: inMemoryTokenStore_List_def valid_order_def)
qed

text \<open>The theorem of claim C10 at a concrete input, with its hypotheses checked there.\<close>

theorem Store_Revoke_frame_witness:
  "(''alice'', ''tok-2'') \<noteq> (''alice'', ''tok-1'') \<and> ''bob'' \<noteq> ''alice'' \<and>
   inMemoryTokenStore_Lookup (snd (inMemoryTokenStore_Revoke example_store ''alice'' ''tok-1''))
     ''alice'' ''tok-2'' = (''tok-2'', None) \<and>
   inMemoryTokenStore_List [] (snd (inMemoryTokenStore_Store example_store ''alice'' ''tok-1'')) ''bob'' =
     Return (None, None)"
proof -
  have h1: "(''alice'', ''tok-2'') \<noteq> (''alice'', ''tok-1'')" by simp
  have h2: "''bob'' \<noteq> ''alice''" by simp
  have l: "inMemoryTokenStore_Lookup example_store ''alice'' ''tok-2'' = (''tok-2'', None)"
    by (simp add: example_defs)
  have m: "inMemoryTokenStore_List [] example_store ''bob'' = Return (None, None)"
    by (simp add: inMemoryTokenStore_List_def example_defs)
  from Store_Revoke_frame [OF h1 h2, of example_store "[]"] h1 h2 l m show ?thesis by simp
qed

end
